theory Spec2Isabelle
  imports
    Main
    "HOL-Library.AList"
    "HOL-Library.Multiset"
    "HOL-Library.Char_ord"
    "HOL-Library.List_Lexorder"
begin

section \<open>gh-mutual-follow: the asymmetric-set calculator\<close>

text \<open>
  Account names are Go strings, compared byte by byte; here \<^typ>\<open>string\<close>.
  A Go \<^verbatim>\<open>map[string]bool\<close> is an association list with distinct keys:
  \<^verbatim>\<open>m[u] = true\<close> is \<^const>\<open>AList.update\<close>, the two-result lookup
  \<^verbatim>\<open>_, exists := m[u]\<close> asks whether the key is bound.
\<close>

type_synonym gomap = "(string \<times> bool) list"

definition make_map :: gomap where
  "make_map = []"

definition map_exists :: "gomap \<Rightarrow> string \<Rightarrow> bool" where
  "map_exists m u = (map_of m u \<noteq> None)"

text \<open>
  \<^verbatim>\<open>for u := range m\<close> visits every key once, in an order the language leaves open.
  The order is chosen by a list of numbers: each number picks the next key among those not
  yet visited. Every list of numbers gives a permutation of the keys.
\<close>

fun range_order :: "nat list \<Rightarrow> 'a list \<Rightarrow> 'a list" where
  "range_order ns [] = []"
| "range_order [] (x # xs) = x # xs"
| "range_order (n # ns) (x # xs) =
     (let i = n mod length (x # xs)
      in (x # xs) ! i # range_order ns (take i (x # xs) @ drop (Suc i) (x # xs)))"

definition range_keys :: "nat list \<Rightarrow> gomap \<Rightarrow> string list" where
  "range_keys ns m = range_order ns (map fst m)"

text \<open>
  \<^verbatim>\<open>GetMutualFollowsData\<close> (internal/cli/cli.go and internal/github/client.go, the same
  body). The two number lists fix the order of the two final \<^verbatim>\<open>range\<close> loops.
\<close>

definition GetMutualFollowsData ::
  "nat list \<Rightarrow> nat list \<Rightarrow> string \<Rightarrow> string list \<Rightarrow> string list \<Rightarrow> string list \<times> string list"
where
  "GetMutualFollowsData ns1 ns2 authenticatedUser following followers =
     (let followingMap = fold (\<lambda>u m. AList.update u True m) following make_map;
          followersMap = fold (\<lambda>u m. AList.update u True m) followers make_map;
          uniqueOnlyFollowing =
            fold (\<lambda>u m. if \<not> map_exists followersMap u then AList.update u True m else m)
              following make_map;
          uniqueOnlyFollowers =
            fold (\<lambda>u m. if \<not> map_exists followingMap u then AList.update u True m else m)
              followers make_map;
          onlyFollowing = fold (\<lambda>u acc. acc @ [u]) (range_keys ns1 uniqueOnlyFollowing) [];
          onlyFollowers = fold (\<lambda>u acc. acc @ [u]) (range_keys ns2 uniqueOnlyFollowers) []
      in (onlyFollowing, onlyFollowers))"

section \<open>The TUI reducer\<close>

text \<open>
  Go errors: \<^verbatim>\<open>errors.New\<close> and \<^verbatim>\<open>fmt.Errorf("...: %w", err)\<close>, which wraps its cause.
  A nil error is \<^term>\<open>None\<close> of \<^typ>\<open>'a option\<close>.
\<close>

datatype error = ErrNew string | ErrWrap string error

type_synonym item = string

text \<open>
  The list widget of the bubbles library, reduced to what the reducer reads and writes: the
  items, the index of the cursor and the size. \<^verbatim>\<open>SelectedItem\<close> is nil when the index is
  outside the items. The library's \<^verbatim>\<open>SetItems\<close> stores the items, which is all that
  \<^verbatim>\<open>Items\<close> returns; it also lays the pages out again, which can move the index back, and
  drops a filtered view. The reduced widget has no pages and no filter and keeps the index:
  it agrees with the library on the items, and on the selected item while the index is 0
  and no filter is set. The properties below read nothing else of it.
\<close>

record listModel =
  items :: "item list"
  cursor :: nat
  listWidth :: int
  listHeight :: int

definition SetItems :: "item list \<Rightarrow> listModel \<Rightarrow> listModel" where
  "SetItems is l = l\<lparr>items := is\<rparr>"

definition SetHeight :: "int \<Rightarrow> listModel \<Rightarrow> listModel" where
  "SetHeight h l = l\<lparr>listHeight := h\<rparr>"

definition SetWidth :: "int \<Rightarrow> listModel \<Rightarrow> listModel" where
  "SetWidth w l = l\<lparr>listWidth := w\<rparr>"

definition SelectedItem :: "listModel \<Rightarrow> item option" where
  "SelectedItem l = (if cursor l < length (items l) then Some (items l ! cursor l) else None)"

definition list_New :: "item list \<Rightarrow> int \<Rightarrow> int \<Rightarrow> listModel" where
  "list_New is w h = \<lparr>items = is, cursor = 0, listWidth = w, listHeight = h\<rparr>"

text \<open>Messages of the type switch in \<^verbatim>\<open>Update\<close>; a key message carries \<^verbatim>\<open>msg.String()\<close>.\<close>

datatype msg =
    WindowSizeMsg int int
  | DataLoadedMsg string "item list" "item list" "error option"
  | ErrorMsg "error option"
  | StatusMsg string
  | KeyMsg string
  | OtherMsg

text \<open>
  Commands are the units of work handed back to the runtime. \<^verbatim>\<open>tea.Tick(d, f)\<close> carries the
  delay in seconds and the message \<^verbatim>\<open>f\<close> returns; a command of the list widget is opaque.
  A returned \<^verbatim>\<open>nil\<close> or empty batch is the empty list.
\<close>

datatype cmd =
    Quit
  | Tick nat msg
  | LoadDataCmd
  | UnfollowCmd item
  | FollowCmd item
  | BulkCmd string "item list"
  | WidgetCmd nat

definition Batch :: "cmd option list \<Rightarrow> cmd list" where
  "Batch cs = concat (map (\<lambda>c. case c of None \<Rightarrow> [] | Some x \<Rightarrow> [x]) cs)"

definition clearStatusMsg :: cmd where
  "clearStatusMsg = Tick 3 (StatusMsg [])"

definition followingPane :: int where
  "followingPane = 0"

definition followersPane :: int where
  "followersPane = 1"

record tuiModel =
  username :: string
  onlyFollowing :: "item list"
  onlyFollowers :: "item list"
  activePane :: int
  followingList :: listModel
  followersList :: listModel
  loading :: bool
  err :: "error option"
  quitting :: bool
  statusMessage :: string
  isBulkActionInProgress :: bool
  width :: int
  height :: int

definition NewModel :: tuiModel where
  "NewModel =
     \<lparr>username = [], onlyFollowing = [], onlyFollowers = [],
      activePane = followingPane,
      followingList = list_New [] 0 0, followersList = list_New [] 0 0,
      loading = True, err = None, quitting = False, statusMessage = [],
      isBulkActionInProgress = False, width = 0, height = 0\<rparr>"

text \<open>Go's integer division rounds toward zero.\<close>

definition go_div :: "int \<Rightarrow> int \<Rightarrow> int" where
  "go_div a b = sgn a * sgn b * (\<bar>a\<bar> div \<bar>b\<bar>)"

definition is_quit :: "string \<Rightarrow> bool" where
  "is_quit k = (k = ''q'' \<or> k = ''ctrl+c'')"

text \<open>
  The \<^verbatim>\<open>tea.KeyMsg\<close> case of \<^verbatim>\<open>Update\<close>. The parameter \<open>lu\<close> is the list widget's own
  \<^verbatim>\<open>Update\<close>, to which the default branch forwards the key.
\<close>

definition UpdateKey ::
  "(string \<Rightarrow> listModel \<Rightarrow> listModel \<times> cmd option) \<Rightarrow> string \<Rightarrow> tuiModel \<Rightarrow> tuiModel \<times> cmd list"
where
  "UpdateKey lu k m =
     (if isBulkActionInProgress m then
        (if is_quit k then (m\<lparr>quitting := True\<rparr>, [Quit]) else (m, []))
      else if err m \<noteq> None then
        (if is_quit k then (m\<lparr>quitting := True\<rparr>, [Quit]) else (m, []))
      else if is_quit k then (m\<lparr>quitting := True\<rparr>, [Quit])
      else if k = ''tab'' \<or> k = ''shift+tab'' then
        (m\<lparr>activePane := (if activePane m = followingPane then followersPane else followingPane)\<rparr>,
         [])
      else if k = ''r'' then (m\<lparr>loading := True, err := None\<rparr>, [LoadDataCmd])
      else if k = ''enter'' then
        (let actionCmd =
               (if activePane m = followingPane
                then map_option UnfollowCmd (SelectedItem (followingList m))
                else map_option FollowCmd (SelectedItem (followersList m)))
         in case actionCmd of
              Some c \<Rightarrow> (m\<lparr>loading := True\<rparr>, Batch [Some c, Some LoadDataCmd])
            | None \<Rightarrow> (m, Batch []))
      else if k = ''a'' then
        (let its = (if activePane m = followingPane
                    then items (followingList m) else items (followersList m));
             action = (if activePane m = followingPane then ''unfollow'' else ''follow'')
         in if length its = 0 then (m, [])
            else (m\<lparr>isBulkActionInProgress := True,
                     statusMessage := ''Bulk '' @ action @ ''ing all users...''\<rparr>,
                  [BulkCmd action its]))
      else
        (if activePane m = followingPane
         then (case lu k (followingList m) of
                 (l, c) \<Rightarrow> (m\<lparr>followingList := l\<rparr>, Batch [c]))
         else (case lu k (followersList m) of
                 (l, c) \<Rightarrow> (m\<lparr>followersList := l\<rparr>, Batch [c]))))"

text \<open>\<^verbatim>\<open>tuiModel.Update\<close> (and \<^verbatim>\<open>model.Update\<close> of the earlier main.go, the same body).\<close>

fun Update ::
  "(string \<Rightarrow> listModel \<Rightarrow> listModel \<times> cmd option) \<Rightarrow> msg \<Rightarrow> tuiModel \<Rightarrow> tuiModel \<times> cmd list"
where
  "Update lu (WindowSizeMsg w h) m =
     (m\<lparr>width := w, height := h,
        followingList := SetWidth (go_div w 2) (SetHeight 15 (followingList m)),
        followersList := SetWidth (go_div w 2) (SetHeight 15 (followersList m))\<rparr>, [])"
| "Update lu (DataLoadedMsg u onlyFg onlyFr e) m =
     (case e of
        Some x \<Rightarrow> (m\<lparr>loading := False, err := Some x\<rparr>, [])
      | None \<Rightarrow>
          (m\<lparr>loading := False, username := u, onlyFollowing := onlyFg, onlyFollowers := onlyFr,
             followingList := SetItems onlyFg (followingList m),
             followersList := SetItems onlyFr (followersList m)\<rparr>, Batch []))"
| "Update lu (ErrorMsg e) m = (m\<lparr>loading := False, err := e\<rparr>, [])"
| "Update lu (StatusMsg s) m =
     (let m' = m\<lparr>isBulkActionInProgress := False, statusMessage := s\<rparr>
      in if statusMessage m' \<noteq> [] then (m', [clearStatusMsg]) else (m', []))"
| "Update lu (KeyMsg k) m = UpdateKey lu k m"
| "Update lu OtherMsg m = (m, Batch [])"

text \<open>A list widget that ignores every key, for running the reducer on concrete events.\<close>

definition idleList :: "string \<Rightarrow> listModel \<Rightarrow> listModel \<times> cmd option" where
  "idleList k l = (l, None)"


section \<open>The GitHub client: GetUser\<close>

text \<open>
  \<^verbatim>\<open>GetUser\<close> runs \<^verbatim>\<open>gh auth status\<close> and searches its output for the regular expression
  \<^verbatim>\<open>Logged in to github.com account (\S+)\<close>. Strings are byte sequences. In the expression
  the dot is not escaped: it stands for one code point other than a line feed, decoded from
  UTF-8 as \<^verbatim>\<open>utf8.DecodeRuneInString\<close> does, where a byte that starts no valid encoding
  counts as a code point of width one. \<^verbatim>\<open>\S\<close> is every code point other than tab, line
  feed, form feed, carriage return and space.
\<close>

definition byte :: "char \<Rightarrow> nat" where
  "byte c = of_char c"

definition rune_width :: "string \<Rightarrow> nat" where
  "rune_width s =
     (case s of
        [] \<Rightarrow> 0
      | s0 # t \<Rightarrow>
          (let b0 = byte s0 in
           if b0 < 0x80 then 1
           else if b0 < 0xC2 \<or> 0xF4 < b0 then 1
           else
             (let sz = (if b0 < 0xE0 then 2 else if b0 < 0xF0 then 3 else (4::nat));
                  lo = (if b0 = 0xE0 then 0xA0 else if b0 = 0xF0 then 0x90 else 0x80);
                  hi = (if b0 = 0xED then 0x9F else if b0 = 0xF4 then 0x8F else 0xBF)
              in if length s < sz then 1
                 else if byte (s ! 1) < lo \<or> hi < byte (s ! 1) then 1
                 else if sz \<le> 2 then 2
                 else if byte (s ! 2) < 0x80 \<or> 0xBF < byte (s ! 2) then 1
                 else if sz \<le> 3 then 3
                 else if byte (s ! 3) < 0x80 \<or> 0xBF < byte (s ! 3) then 1
                 else 4)))"

definition is_space :: "char \<Rightarrow> bool" where
  "is_space c = (byte c = 0x09 \<or> byte c = 0x0A \<or> byte c = 0x0C \<or> byte c = 0x0D \<or> byte c = 0x20)"

fun strip_prefix :: "string \<Rightarrow> string \<Rightarrow> string option" where
  "strip_prefix [] s = Some s"
| "strip_prefix (p # ps) [] = None"
| "strip_prefix (p # ps) (c # cs) = (if p = c then strip_prefix ps cs else None)"

definition lit_before :: string where
  "lit_before = ''Logged in to github''"

definition lit_after :: string where
  "lit_after = ''com account ''"

text \<open>
  A match that starts at the first byte of \<open>s\<close>: the whole match and the captured group.
  The capture is greedy, so it is the longest run of non-space bytes.
\<close>

definition match_at :: "string \<Rightarrow> (string \<times> string) option" where
  "match_at s =
     (case strip_prefix lit_before s of
        None \<Rightarrow> None
      | Some r1 \<Rightarrow>
          (if r1 = [] \<or> byte (hd r1) = 0x0A then None
           else
             (case strip_prefix lit_after (drop (rune_width r1) r1) of
                None \<Rightarrow> None
              | Some r2 \<Rightarrow>
                  (let name = takeWhile (\<lambda>c. \<not> is_space c) r2
                   in if name = [] then None
                      else Some (lit_before @ take (rune_width r1) r1 @ lit_after @ name, name)))))"

text \<open>
  \<^verbatim>\<open>re.FindStringSubmatch\<close>: the leftmost match, as the list of the whole match and the
  group, or the empty list (nil) when there is none.
\<close>

fun FindStringSubmatch :: "string \<Rightarrow> string list" where
  "FindStringSubmatch [] = (case match_at [] of Some (w, n) \<Rightarrow> [w, n] | None \<Rightarrow> [])"
| "FindStringSubmatch (c # cs) =
     (case match_at (c # cs) of Some (w, n) \<Rightarrow> [w, n] | None \<Rightarrow> FindStringSubmatch cs)"

definition err_auth_status :: string where
  "err_auth_status = ''failed to run 'gh auth status': ''"

definition err_no_user :: string where
  "err_no_user = ''could not find authenticated user in 'gh auth status' output''"

text \<open>
  \<^verbatim>\<open>GetUser\<close>: the argument is what the command runner returned, output and error; the
  result is the pair of Go results, user name and error.
\<close>

definition GetUser :: "string \<times> error option \<Rightarrow> string \<times> error option" where
  "GetUser run =
     (case snd run of
        Some e \<Rightarrow> ([], Some (ErrWrap err_auth_status e))
      | None \<Rightarrow>
          (let matches = FindStringSubmatch (fst run)
           in if length matches < 2 then ([], Some (ErrNew err_no_user))
              else (matches ! 1, None)))"

text \<open>
  The pattern occurs in \<open>out\<close> at byte offset \<open>i\<close> with capture \<open>name\<close>: the fixed text,
  one code point \<open>d\<close> that is no line feed, the fixed text, then \<open>name\<close>, non-empty, without
  space and not continued by a non-space byte.
\<close>

definition occurs_at :: "string \<Rightarrow> nat \<Rightarrow> string \<Rightarrow> bool" where
  "occurs_at out i name \<longleftrightarrow>
     (\<exists>d post. i \<le> length out \<and> drop i out = lit_before @ d @ lit_after @ name @ post \<and>
        d \<noteq> [] \<and> byte (hd d) \<noteq> 0x0A \<and>
        length d = rune_width (d @ lit_after @ name @ post) \<and>
        name \<noteq> [] \<and> (\<forall>c \<in> set name. \<not> is_space c) \<and>
        (post = [] \<or> is_space (hd post)))"

text \<open>The text \<open>p\<close> occurs in \<open>s\<close>, byte for byte.\<close>

fun contains_text :: "string \<Rightarrow> string \<Rightarrow> bool" where
  "contains_text p [] = (p = [])"
| "contains_text p (c # cs) = (take (length p) (c # cs) = p \<or> contains_text p cs)"

section \<open>The data-load orchestrator\<close>

text \<open>
  The client interface, with the field names of the test double. Each read returns a value
  or an error. \<^verbatim>\<open>loadDataCmd\<close> returns its message together with the calls it made, in
  order.
\<close>

record client =
  GetUserFunc :: "error + string"
  GetFollowingFunc :: "string \<Rightarrow> error + string list"
  GetFollowersFunc :: "string \<Rightarrow> error + string list"
  UnfollowFunc :: "string \<Rightarrow> error option"
  FollowFunc :: "string \<Rightarrow> error option"

datatype call = CallGetUser | CallGetFollowing string | CallGetFollowers string

text \<open>
  \<^verbatim>\<open>sort.Slice\<close> with the comparison \<^verbatim>\<open>a < b\<close> on strings: ascending in the byte-wise
  order of Go strings. Equal strings cannot be told apart, so that the sort is not stable
  does not show in the result.
\<close>

definition sort_Slice :: "item list \<Rightarrow> item list" where
  "sort_Slice xs = sort xs"

definition loadDataCmd :: "nat list \<Rightarrow> nat list \<Rightarrow> client \<Rightarrow> msg \<times> call list" where
  "loadDataCmd ns1 ns2 c =
     (case GetUserFunc c of
        Inl e \<Rightarrow> (ErrorMsg (Some (ErrWrap ''failed to get user: '' e)), [CallGetUser])
      | Inr user \<Rightarrow>
          (case GetFollowingFunc c user of
             Inl e \<Rightarrow> (ErrorMsg (Some (ErrWrap ''failed to get following: '' e)),
                        [CallGetUser, CallGetFollowing user])
           | Inr following \<Rightarrow>
               (case GetFollowersFunc c user of
                  Inl e \<Rightarrow> (ErrorMsg (Some (ErrWrap ''failed to get followers: '' e)),
                             [CallGetUser, CallGetFollowing user, CallGetFollowers user])
                | Inr followers \<Rightarrow>
                    (case GetMutualFollowsData ns1 ns2 user following followers of
                       (onlyFollowingStr, onlyFollowersStr) \<Rightarrow>
                         (DataLoadedMsg user (sort_Slice onlyFollowingStr)
                            (sort_Slice onlyFollowersStr) None,
                          [CallGetUser, CallGetFollowing user, CallGetFollowers user])))))"

section \<open>States of the scenarios\<close>

definition readyModel :: tuiModel where
  "readyModel =
     fst (Update idleList (DataLoadedMsg ''alice'' [''x'', ''y''] [''x'', ''y''] None) NewModel)"

definition errorModel :: tuiModel where
  "errorModel = fst (Update idleList (ErrorMsg (Some (ErrNew ''boom''))) NewModel)"

definition testClient :: client where
  "testClient =
     \<lparr>GetUserFunc = Inr ''me'',
      GetFollowingFunc = (\<lambda>u. Inr [''dave'', ''bob'', ''alice'', ''bob'']),
      GetFollowersFunc = (\<lambda>u. Inr [''frank'', ''bob'', ''eve'']),
      UnfollowFunc = (\<lambda>u. None), FollowFunc = (\<lambda>u. None)\<rparr>"

text \<open>The output of \<^verbatim>\<open>gh auth status\<close> used by the repository's test of \<^verbatim>\<open>GetUser\<close>.\<close>

definition testOutput :: string where
  "testOutput =
     ''github.com'' @ [CHR 0x0A] @ ''  '' @ [CHR 0xE2, CHR 0x9C, CHR 0x93] @
     '' Logged in to github.com account testuser (keyring)''"

text \<open>
  A run of the reducer: act on the selected account, the action's status message arrives
  (its expiry is now pending), the reload completes, a bulk action starts.
\<close>

definition afterEnter :: tuiModel where
  "afterEnter = fst (Update idleList (KeyMsg ''enter'') readyModel)"

definition afterStatus :: tuiModel where
  "afterStatus = fst (Update idleList (StatusMsg ''Unfollowed x!'') afterEnter)"

definition afterReload :: tuiModel where
  "afterReload = fst (Update idleList (DataLoadedMsg ''alice'' [''y''] [''x'', ''y''] None) afterStatus)"

definition bulkBusy :: tuiModel where
  "bulkBusy = fst (Update idleList (KeyMsg ''a'') afterReload)"

text \<open>Two status messages in a row: the expiry of the first is pending when the second is set.\<close>

definition firstStatus :: tuiModel where
  "firstStatus = fst (Update idleList (StatusMsg ''Unfollowed x!'') readyModel)"

definition newerStatus :: tuiModel where
  "newerStatus = fst (Update idleList (StatusMsg ''Bulk unfollow complete!'') firstStatus)"

section \<open>Properties of the calculator\<close>

lemma mset_range_order: "mset (range_order ns xs) = mset xs"
proof (induction ns xs rule: range_order.induct)
  case (3 n ns x xs)
  let ?ys = "x # xs"
  let ?i = "n mod length ?ys"
  have i: "?i < length ?ys" by simp
  have "mset ?ys = mset (take ?i ?ys @ ?ys ! ?i # drop (Suc ?i) ?ys)"
    using id_take_nth_drop [OF i] by simp
  then have "mset ?ys = add_mset (?ys ! ?i) (mset (take ?i ?ys @ drop (Suc ?i) ?ys))"
    by simp
  with 3 show ?case by (simp add: Let_def)
qed simp_all

lemma set_range_order: "set (range_order ns xs) = set xs"
  using mset_range_order [of ns xs] by (metis set_mset_mset)

lemma distinct_range_order: "distinct (range_order ns xs) = distinct xs"
  using mset_range_order [of ns xs] by (metis mset_eq_imp_distinct_iff)

text \<open>Conversely, every order of the keys is chosen by some list of numbers.\<close>

lemma range_order_complete: "mset ys = mset xs \<Longrightarrow> \<exists>ns. range_order ns xs = ys"
proof (induction ys arbitrary: xs)
  case Nil
  then show ?case by simp
next
  case (Cons y ys)
  then have "y \<in> set xs" by (metis list.set_intros(1) mset_eq_setD)
  then obtain i where i: "i < length xs" "xs ! i = y" by (auto simp: in_set_conv_nth)
  then obtain x xs' where xs: "xs = x # xs'" by (cases xs) auto
  let ?rest = "take i xs @ drop (Suc i) xs"
  have "mset xs = add_mset y (mset ?rest)"
    using id_take_nth_drop [OF i(1)] i(2) by (metis mset.simps(2) mset_append union_mset_add_mset_right)
  with Cons.prems have "mset ys = mset ?rest" by simp
  from Cons.IH [OF this] obtain ns where ns: "range_order ns ?rest = ys" by blast
  have "range_order (i # ns) xs = y # ys"
    using i ns unfolding xs by (simp add: Let_def)
  then show ?case by blast
qed

lemma fold_snoc: "fold (\<lambda>u acc. acc @ [u]) xs acc = acc @ xs"
  by (induction xs arbitrary: acc) simp_all

lemma keys_fold_update:
  "fst ` set (fold (\<lambda>u m. AList.update u True m) xs m) = set xs \<union> fst ` set m"
  by (induction xs arbitrary: m) (auto simp: dom_update)

lemma map_exists_collect:
  "map_exists (fold (\<lambda>u m. AList.update u True m) xs make_map) u \<longleftrightarrow> u \<in> set xs"
proof -
  have "map_exists m u \<longleftrightarrow> u \<in> fst ` set m" for m
    by (simp add: map_exists_def map_of_eq_None_iff)
  then show ?thesis by (simp add: keys_fold_update make_map_def)
qed

lemma keys_fold_cond:
  "fst ` set (fold (\<lambda>u m. if P u then AList.update u True m else m) xs m)
     = {u \<in> set xs. P u} \<union> fst ` set m"
  by (induction xs arbitrary: m) (auto simp: dom_update)

lemma distinct_fold_cond:
  "distinct (map fst m) \<Longrightarrow>
   distinct (map fst (fold (\<lambda>u m. if P u then AList.update u True m else m) xs m))"
  by (induction xs arbitrary: m) (simp_all add: distinct_update)

lemma make_map_keys: "fst ` set make_map = {}" "distinct (map fst make_map)"
  by (simp_all add: make_map_def)

lemma fst_GetMutualFollowsData:
  "set (fst (GetMutualFollowsData ns1 ns2 au following followers)) = set following - set followers"
  by (auto simp: GetMutualFollowsData_def Let_def fold_snoc range_keys_def set_range_order
        map_exists_collect keys_fold_cond make_map_keys)

lemma snd_GetMutualFollowsData:
  "set (snd (GetMutualFollowsData ns1 ns2 au following followers)) = set followers - set following"
  by (auto simp: GetMutualFollowsData_def Let_def fold_snoc range_keys_def set_range_order
        map_exists_collect keys_fold_cond make_map_keys)

lemma distinct_GetMutualFollowsData:
  "distinct (fst (GetMutualFollowsData ns1 ns2 au following followers)) \<and>
   distinct (snd (GetMutualFollowsData ns1 ns2 au following followers))"
  by (simp add: GetMutualFollowsData_def Let_def fold_snoc range_keys_def distinct_range_order
        distinct_fold_cond make_map_keys)

text \<open>
  C1. For all input sequences, the results of \<^verbatim>\<open>GetMutualFollowsData\<close> are, as sets, the
  two differences: onlyFollowing is disjoint from followers, onlyFollowers is disjoint from
  following, each joined with the mutual accounts gives back its input set, and neither
  result repeats a name. The function is total, so there is no failure mode.
\<close>

theorem GetMutualFollowsData_sets:
  "set (fst (GetMutualFollowsData ns1 ns2 au following followers)) \<inter> set followers = {} \<and>
   set (snd (GetMutualFollowsData ns1 ns2 au following followers)) \<inter> set following = {} \<and>
   set (fst (GetMutualFollowsData ns1 ns2 au following followers))
     \<union> (set following \<inter> set followers) = set following \<and>
   set (snd (GetMutualFollowsData ns1 ns2 au following followers))
     \<union> (set following \<inter> set followers) = set followers \<and>
   set (fst (GetMutualFollowsData ns1 ns2 au following followers)) = set following - set followers \<and>
   set (snd (GetMutualFollowsData ns1 ns2 au following followers)) = set followers - set following \<and>
   distinct (fst (GetMutualFollowsData ns1 ns2 au following followers)) \<and>
   distinct (snd (GetMutualFollowsData ns1 ns2 au following followers))"
  using distinct_GetMutualFollowsData [of ns1 ns2 au following followers]
  by (auto simp: fst_GetMutualFollowsData snd_GetMutualFollowsData)

text \<open>
  C7. The result sets of the calculator depend only on the sets of its two sequence
  arguments: calls whose following inputs are equal as sets and whose followers inputs are
  equal as sets return equal sets, whatever the authenticated user, the order of the
  inputs, the number of repetitions and the order of the range loops.
\<close>

theorem GetMutualFollowsData_depends_on_sets:
  "set following = set following' \<Longrightarrow> set followers = set followers' \<Longrightarrow>
   set (fst (GetMutualFollowsData ns1 ns2 au following followers)) =
     set (fst (GetMutualFollowsData ns1' ns2' au' following' followers')) \<and>
   set (snd (GetMutualFollowsData ns1 ns2 au following followers)) =
     set (snd (GetMutualFollowsData ns1' ns2' au' following' followers'))"
  by (simp add: fst_GetMutualFollowsData snd_GetMutualFollowsData)

theorem GetMutualFollowsData_depends_on_sets_witness:
  "set [''alice'', ''bob'', ''alice''] = set [''bob'', ''alice''] \<and>
   set [''bob'', ''charlie''] = set [''charlie'', ''bob'', ''bob''] \<and>
   set (fst (GetMutualFollowsData [1] [] ''me'' [''alice'', ''bob'', ''alice''] [''bob'', ''charlie''])) =
     set (fst (GetMutualFollowsData [] [2] ''you'' [''bob'', ''alice''] [''charlie'', ''bob'', ''bob''])) \<and>
   set (snd (GetMutualFollowsData [1] [] ''me'' [''alice'', ''bob'', ''alice''] [''bob'', ''charlie''])) =
     set (snd (GetMutualFollowsData [] [2] ''you'' [''bob'', ''alice''] [''charlie'', ''bob'', ''bob'']))"
proof -
  have a: "set [''alice'', ''bob'', ''alice''] = set [''bob'', ''alice'']" by auto
  have b: "set [''bob'', ''charlie''] = set [''charlie'', ''bob'', ''bob'']" by auto
  show ?thesis
    using a b GetMutualFollowsData_depends_on_sets
      [OF a b, of "[1]" "[]" "''me''" "[]" "[2]" "''you''"]
    by blast
qed

section \<open>Properties of the reducer\<close>

lemmas scenario_defs =
  bulkBusy_def afterReload_def afterStatus_def afterEnter_def readyModel_def NewModel_def
  UpdateKey_def is_quit_def followingPane_def SetItems_def Batch_def clearStatusMsg_def
  list_New_def SelectedItem_def

lemma bulkBusy_busy: "isBulkActionInProgress bulkBusy"
  by (simp add: Let_def scenario_defs)






text \<open>
  C3, as the claim states it, fails: the initial model is loading, holds no error, and yet
  the tab key changes it and the refresh key schedules a new load.
\<close>

theorem loading_does_not_gate_counterexample:
  "loading NewModel \<and> err NewModel = None \<and> \<not> is_quit ''tab'' \<and>
   fst (Update idleList (KeyMsg ''tab'') NewModel) \<noteq> NewModel \<and>
   \<not> is_quit ''r'' \<and> snd (Update idleList (KeyMsg ''r'') NewModel) = [LoadDataCmd]"
  by (simp add: NewModel_def UpdateKey_def is_quit_def followingPane_def followersPane_def)

text \<open>
  C3 (amended). For every model in which a bulk operation is outstanding (\<open>busy = true\<close>),
  every key event other than a quit request is inert: it leaves the model unchanged and
  schedules no work.
\<close>

theorem busy_key_inert:
  "isBulkActionInProgress m \<Longrightarrow> \<not> is_quit k \<Longrightarrow> Update lu (KeyMsg k) m = (m, [])"
  by (simp add: UpdateKey_def)

theorem busy_key_inert_witness:
  "isBulkActionInProgress bulkBusy \<and> \<not> is_quit ''enter'' \<and>
   Update idleList (KeyMsg ''enter'') bulkBusy = (bulkBusy, [])"
proof -
  have b: "isBulkActionInProgress bulkBusy" by (rule bulkBusy_busy)
  have q: "\<not> is_quit ''enter''" by (simp add: is_quit_def)
  show ?thesis using b q busy_key_inert [OF b q, of idleList] by simp
qed

text \<open>
  C4, as the claim states it, fails: the expiry scheduled for the first status message
  clears the newer, different message that is held when it arrives.
\<close>

theorem expiry_clears_newer_status_counterexample:
  "snd (Update idleList (StatusMsg ''Unfollowed x!'') readyModel) = [Tick 3 (StatusMsg [])] \<and>
   statusMessage newerStatus = ''Bulk unfollow complete!'' \<and>
   ''Bulk unfollow complete!'' \<noteq> ''Unfollowed x!'' \<and>
   statusMessage (fst (Update idleList (StatusMsg []) newerStatus)) = []"
  by (simp add: newerStatus_def firstStatus_def clearStatusMsg_def)

text \<open>
  C4 (amended). The expiry signal is the empty status message, whatever message it was
  scheduled for; processing it always sets the status text to the empty text, whatever text
  is held, clears the busy flag and schedules nothing.
\<close>

theorem expiry_clears_status:
  "clearStatusMsg = Tick 3 (StatusMsg []) \<and>
   Update lu (StatusMsg []) m = (m\<lparr>isBulkActionInProgress := False, statusMessage := []\<rparr>, [])"
  by (simp add: clearStatusMsg_def)

text \<open>
  C5, as the claim states it, fails: after a failed load a resize event and a status message
  still change the state.
\<close>

theorem error_halt_non_key_counterexample:
  "loading NewModel \<and>
   err errorModel = Some (ErrNew ''boom'') \<and>
   fst (Update idleList (WindowSizeMsg 80 24) errorModel) \<noteq> errorModel \<and>
   fst (Update idleList (StatusMsg ''Followed bob!'') errorModel) \<noteq> errorModel"
  by (simp add: errorModel_def NewModel_def)

text \<open>
  C5 (amended). For every model, a LoadFailed message with cause \<open>e\<close> yields a state with
  \<open>loading = false\<close> and \<open>err = e\<close>, and in that state every key event other than a quit
  request leaves the state unchanged and schedules no work.
\<close>

theorem error_halt_keys_inert:
  "\<not> is_quit k \<Longrightarrow>
   loading (fst (Update lu (ErrorMsg (Some e)) m)) = False \<and>
   err (fst (Update lu (ErrorMsg (Some e)) m)) = Some e \<and>
   Update lu (KeyMsg k) (fst (Update lu (ErrorMsg (Some e)) m)) =
     (fst (Update lu (ErrorMsg (Some e)) m), [])"
  by (simp add: UpdateKey_def)

theorem error_halt_keys_inert_witness:
  "\<not> is_quit ''r'' \<and>
   loading errorModel = False \<and> err errorModel = Some (ErrNew ''boom'') \<and>
   Update idleList (KeyMsg ''r'') errorModel = (errorModel, [])"
proof -
  have q: "\<not> is_quit ''r''" by (simp add: is_quit_def)
  show ?thesis
    using q error_halt_keys_inert [OF q, of idleList "ErrNew ''boom''" NewModel]
    by (simp add: errorModel_def)
qed

text \<open>
  C8. For every model with the busy flag set, a key event is acted upon only if it is a quit
  request; a pane-switch key (tab or shift+tab) leaves the active pane unchanged and
  schedules no work.
\<close>

theorem busy_pane_switch_ignored:
  "isBulkActionInProgress m \<Longrightarrow>
   Update lu (KeyMsg k) m = (if is_quit k then (m\<lparr>quitting := True\<rparr>, [Quit]) else (m, [])) \<and>
   activePane (fst (Update lu (KeyMsg ''tab'') m)) = activePane m \<and>
   snd (Update lu (KeyMsg ''tab'') m) = [] \<and>
   activePane (fst (Update lu (KeyMsg ''shift+tab'') m)) = activePane m \<and>
   snd (Update lu (KeyMsg ''shift+tab'') m) = []"
  by (simp add: UpdateKey_def is_quit_def)

theorem busy_pane_switch_ignored_witness:
  "isBulkActionInProgress (NewModel\<lparr>isBulkActionInProgress := True\<rparr>) \<and>
   activePane (fst (Update idleList (KeyMsg ''tab'') (NewModel\<lparr>isBulkActionInProgress := True\<rparr>)))
     = followingPane \<and>
   snd (Update idleList (KeyMsg ''tab'') (NewModel\<lparr>isBulkActionInProgress := True\<rparr>)) = [] \<and>
   Update idleList (KeyMsg ''q'') (NewModel\<lparr>isBulkActionInProgress := True\<rparr>) =
     (NewModel\<lparr>isBulkActionInProgress := True, quitting := True\<rparr>, [Quit])"
proof -
  have b: "isBulkActionInProgress (NewModel\<lparr>isBulkActionInProgress := True\<rparr>)" by simp
  show ?thesis
    using busy_pane_switch_ignored [OF b, of idleList "''q''"]
    by (simp add: is_quit_def NewModel_def)
qed

text \<open>
  C9. Processing any status message sets the busy flag to false, the empty message of the
  expiry timer included. In the run above, the expiry pending from the single action's
  message arrives while the bulk action is in flight and releases the busy gate.
\<close>

theorem status_message_clears_busy:
  "isBulkActionInProgress (fst (Update lu (StatusMsg s) m)) = False \<and>
   snd (Update idleList (StatusMsg ''Unfollowed x!'') afterEnter) = [Tick 3 (StatusMsg [])] \<and>
   snd (Update idleList (KeyMsg ''a'') afterReload) = [BulkCmd ''unfollow'' [''y'']] \<and>
   isBulkActionInProgress bulkBusy = True \<and>
   isBulkActionInProgress (fst (Update idleList (StatusMsg []) bulkBusy)) = False"
  by (simp add: Let_def scenario_defs)

section \<open>Properties of GetUser\<close>

lemma strip_prefix_iff: "strip_prefix p s = Some r \<longleftrightarrow> s = p @ r"
  by (induction p s rule: strip_prefix.induct) auto

lemma rune_width_bounds: "s \<noteq> [] \<Longrightarrow> 0 < rune_width s \<and> rune_width s \<le> length s"
  by (cases s) (auto simp: rune_width_def Let_def Suc_le_eq)

lemma strip_prefix_lit_Nil: "strip_prefix lit_before [] = None"
  unfolding lit_before_def by simp

lemma match_at_Nil: "match_at [] = None"
  by (simp add: match_at_def strip_prefix_lit_Nil)

lemma match_at_SomeD:
  assumes "match_at s = Some (w, n)"
  shows "\<exists>d post. s = lit_before @ d @ lit_after @ n @ post \<and>
           d \<noteq> [] \<and> byte (hd d) \<noteq> 0x0A \<and>
           length d = rune_width (d @ lit_after @ n @ post) \<and>
           n \<noteq> [] \<and> (\<forall>c \<in> set n. \<not> is_space c) \<and>
           (post = [] \<or> is_space (hd post)) \<and> w = lit_before @ d @ lit_after @ n"
proof -
  from assms obtain r1 where r1: "strip_prefix lit_before s = Some r1"
    by (auto simp: match_at_def split: option.splits)
  with assms have ne: "r1 \<noteq> []" and nl: "byte (hd r1) \<noteq> 0x0A"
    by (auto simp: match_at_def split: option.splits if_splits)
  with assms r1 obtain r2 where r2: "strip_prefix lit_after (drop (rune_width r1) r1) = Some r2"
    by (auto simp: match_at_def split: option.splits if_splits)
  let ?P = "\<lambda>c. \<not> is_space c"
  from assms r1 ne nl r2 have n: "n = takeWhile ?P r2" and nn: "n \<noteq> []"
    and w: "w = lit_before @ take (rune_width r1) r1 @ lit_after @ n"
    by (auto simp: match_at_def Let_def split: if_splits)
  define d where "d = take (rune_width r1) r1"
  define post where "post = dropWhile ?P r2"
  have s: "s = lit_before @ r1" using r1 by (simp add: strip_prefix_iff)
  have dr: "drop (rune_width r1) r1 = lit_after @ r2" using r2 by (simp add: strip_prefix_iff)
  have r2eq: "r2 = n @ post" by (simp add: n post_def)
  have r1eq: "r1 = d @ lit_after @ n @ post"
    using append_take_drop_id [of "rune_width r1" r1] dr r2eq d_def by simp
  have bounds: "0 < rune_width r1" "rune_width r1 \<le> length r1"
    using rune_width_bounds [OF ne] by auto
  have dne: "d \<noteq> []" using bounds ne by (simp add: d_def)
  have hd: "hd d = hd r1" using bounds by (simp add: d_def)
  have len: "length d = rune_width (d @ lit_after @ n @ post)"
    using bounds r1eq [symmetric] by (simp add: d_def)
  have allP: "\<forall>c \<in> set n. \<not> is_space c" unfolding n by (auto dest: set_takeWhileD)
  have post: "post = [] \<or> is_space (hd post)"
    unfolding post_def using hd_dropWhile [of ?P r2] by auto
  have s': "s = lit_before @ d @ lit_after @ n @ post" using s r1eq by simp
  have w': "w = lit_before @ d @ lit_after @ n" using w by (simp only: d_def)
  have nl': "byte (hd d) \<noteq> 0x0A" using nl hd by simp
  from s' dne nl' len nn allP post w' show ?thesis by blast
qed

lemma match_at_SomeI:
  assumes "s = lit_before @ d @ lit_after @ n @ post"
    and "d \<noteq> []" and "byte (hd d) \<noteq> 0x0A"
    and "length d = rune_width (d @ lit_after @ n @ post)"
    and "n \<noteq> []" and "\<forall>c \<in> set n. \<not> is_space c"
    and "post = [] \<or> is_space (hd post)"
  shows "match_at s = Some (lit_before @ d @ lit_after @ n, n)"
proof -
  let ?P = "\<lambda>c. \<not> is_space c"
  let ?r1 = "d @ lit_after @ n @ post"
  have sp: "strip_prefix lit_before s = Some ?r1" using assms(1) by (simp add: strip_prefix_iff)
  have hd: "hd ?r1 = hd d" using assms(2) by simp
  have sp2: "strip_prefix lit_after (drop (rune_width ?r1) ?r1) = Some (n @ post)"
    using assms(4) [symmetric] by (simp add: strip_prefix_iff)
  have tk: "take (rune_width ?r1) ?r1 = d" using assms(4) [symmetric] by simp
  have "takeWhile ?P post = []" using assms(7) by (cases post) auto
  then have tw: "takeWhile ?P (n @ post) = n" using assms(6) by (simp add: takeWhile_append2)
  show ?thesis
    unfolding match_at_def using sp hd sp2 tk tw assms(2,3,5) by (simp add: Let_def)
qed

lemma occurs_at_iff:
  "occurs_at out i n \<longleftrightarrow> i \<le> length out \<and> (\<exists>w. match_at (drop i out) = Some (w, n))"
proof
  assume "occurs_at out i n"
  then show "i \<le> length out \<and> (\<exists>w. match_at (drop i out) = Some (w, n))"
    unfolding occurs_at_def by (auto dest!: match_at_SomeI)
next
  assume "i \<le> length out \<and> (\<exists>w. match_at (drop i out) = Some (w, n))"
  then show "occurs_at out i n"
    unfolding occurs_at_def by (auto dest!: match_at_SomeD)
qed

lemma FindStringSubmatch_cases:
  "(FindStringSubmatch s = [] \<and> (\<forall>i \<le> length s. match_at (drop i s) = None)) \<or>
   (\<exists>i w n. i \<le> length s \<and> match_at (drop i s) = Some (w, n) \<and>
      (\<forall>j < i. match_at (drop j s) = None) \<and> FindStringSubmatch s = [w, n])"
proof (induction s)
  case Nil
  then show ?case by (simp add: match_at_Nil)
next
  case (Cons c cs)
  show ?case
  proof (cases "match_at (c # cs)")
    case (Some p)
    then obtain w n where "match_at (c # cs) = Some (w, n)" by (cases p) auto
    then have "0 \<le> length (c # cs) \<and> match_at (drop 0 (c # cs)) = Some (w, n) \<and>
      (\<forall>j < 0. match_at (drop j (c # cs)) = None) \<and> FindStringSubmatch (c # cs) = [w, n]"
      by simp
    then show ?thesis by blast
  next
    case None
    from Cons.IH show ?thesis
    proof
      assume a: "FindStringSubmatch cs = [] \<and> (\<forall>i \<le> length cs. match_at (drop i cs) = None)"
      have "match_at (drop i (c # cs)) = None" if "i \<le> length (c # cs)" for i
        using that a None by (cases i) auto
      with a None show ?thesis by simp
    next
      assume "\<exists>i w n. i \<le> length cs \<and> match_at (drop i cs) = Some (w, n) \<and>
        (\<forall>j < i. match_at (drop j cs) = None) \<and> FindStringSubmatch cs = [w, n]"
      then obtain i w n where i: "i \<le> length cs" "match_at (drop i cs) = Some (w, n)"
        "\<forall>j < i. match_at (drop j cs) = None" "FindStringSubmatch cs = [w, n]" by blast
      have "match_at (drop j (c # cs)) = None" if "j < Suc i" for j
        using that i(3) None by (cases j) auto
      with i None have "Suc i \<le> length (c # cs) \<and> match_at (drop (Suc i) (c # cs)) = Some (w, n) \<and>
        (\<forall>j < Suc i. match_at (drop j (c # cs)) = None) \<and> FindStringSubmatch (c # cs) = [w, n]"
        by simp
      then show ?thesis by blast
    qed
  qed
qed

text \<open>
  What holds of \<^verbatim>\<open>GetUser\<close> with the pattern read as the regular expression of the source:
  no empty user name with a nil error, an error exactly when the command failed or the
  expression matches nowhere, and on success the capture of the leftmost match.
\<close>

lemma GetUser_regex_result:
  "\<not> (fst (GetUser run) = [] \<and> snd (GetUser run) = None) \<and>
   (snd (GetUser (out, e)) \<noteq> None \<longleftrightarrow> e \<noteq> None \<or> \<not> (\<exists>i n. occurs_at out i n)) \<and>
   (snd (GetUser (out, e)) = None \<longrightarrow>
      fst (GetUser (out, e)) \<noteq> [] \<and>
      (\<exists>i. occurs_at out i (fst (GetUser (out, e))) \<and> (\<forall>j < i. \<forall>n. \<not> occurs_at out j n)))"
proof -
  have ne: "matches ! 1 \<noteq> []"
    if "FindStringSubmatch s = matches" "\<not> length matches < 2" for s matches
    using FindStringSubmatch_cases [of s] that by (auto dest!: match_at_SomeD)
  have a: "\<not> (fst (GetUser r) = [] \<and> snd (GetUser r) = None)" for r
    using ne by (auto simp: GetUser_def Let_def split: option.splits)
  have b: "snd (GetUser (out, e)) \<noteq> None \<longleftrightarrow> e \<noteq> None \<or> \<not> (\<exists>i n. occurs_at out i n)"
    using FindStringSubmatch_cases [of out]
    by (auto simp: GetUser_def Let_def occurs_at_iff split: option.splits)
  have c: "\<exists>i. occurs_at out i (fst (GetUser (out, e))) \<and> (\<forall>j < i. \<forall>n. \<not> occurs_at out j n)"
    if "snd (GetUser (out, e)) = None"
    using FindStringSubmatch_cases [of out] that
    by (auto simp: GetUser_def Let_def occurs_at_iff split: option.splits if_splits)
  show ?thesis using a [of run] a [of "(out, e)"] b c by blast
qed

lemma GetUser_testOutput: "GetUser (testOutput, None) = (''testuser'', None)"
  by code_simp

text \<open>
  An output that contains the text of the pattern, followed by a byte that is no space, is
  always accepted: the expression accepts at least what the text describes.
\<close>

lemma is_space_iff:
  "is_space c \<longleftrightarrow> c \<in> {CHR 0x09, CHR 0x0A, CHR 0x0C, CHR 0x0D, CHR '' ''}"
proof -
  have e: "byte c = n \<longleftrightarrow> c = d" if "of_char d = n" for n :: nat and d
    using that unfolding byte_def by (metis of_char_eq_iff)
  show ?thesis
    unfolding is_space_def
    by (simp add: e [of "CHR 0x09"] e [of "CHR 0x0A"] e [of "CHR 0x0C"] e [of "CHR 0x0D"]
          e [of "CHR '' ''"])
qed

lemma GetUser_literal_accepted:
  assumes out: "out = pre @ ''Logged in to github.com account '' @ c # rest"
    and c: "c \<notin> {CHR 0x09, CHR 0x0A, CHR 0x0C, CHR 0x0D, CHR '' ''}"
  shows "snd (GetUser (out, None)) = None"
proof -
  let ?P = "\<lambda>c. \<not> is_space c"
  let ?n = "takeWhile ?P (c # rest)"
  let ?post = "dropWhile ?P (c # rest)"
  have nsp: "\<not> is_space c" using c by (simp add: is_space_iff)
  have n: "?n \<noteq> []" using nsp by simp
  have d: "drop (length pre) out = lit_before @ ''.'' @ lit_after @ ?n @ ?post"
    unfolding out lit_before_def lit_after_def by (simp del: takeWhile.simps dropWhile.simps)
  have w: "length ''.'' = rune_width (''.'' @ lit_after @ ?n @ ?post)"
    by (simp add: rune_width_def byte_def del: takeWhile.simps dropWhile.simps)
  have nl: "byte (hd ''.'') \<noteq> 0x0A" by (simp add: byte_def)
  have allP: "\<forall>x \<in> set ?n. \<not> is_space x" by (auto dest: set_takeWhileD)
  have post: "?post = [] \<or> is_space (hd ?post)"
  proof (cases "?post = []")
    case False
    from hd_dropWhile [OF False] show ?thesis by simp
  qed simp
  have "occurs_at out (length pre) ?n"
    unfolding occurs_at_def
    using d w nl n allP post out
    by (intro exI [of _ "''.''"] exI [of _ ?post]) (simp del: takeWhile.simps dropWhile.simps)
  then show ?thesis using GetUser_regex_result [of "(out, None)" out None] by blast
qed

lemma contains_text_iff: "contains_text p s \<longleftrightarrow> (\<exists>pre post. s = pre @ p @ post)"
proof (induction s)
  case Nil
  then show ?case by auto
next
  case (Cons c cs)
  have "take (length p) (c # cs) = p \<longleftrightarrow> (\<exists>post. c # cs = p @ post)"
    by (metis append_eq_conv_conj append_take_drop_id)
  moreover have "(\<exists>pre post. c # cs = pre @ p @ post) \<longleftrightarrow>
      (\<exists>post. c # cs = p @ post) \<or> (\<exists>pre post. cs = pre @ p @ post)"
  proof
    assume "\<exists>pre post. c # cs = pre @ p @ post"
    then obtain pre post where e: "c # cs = pre @ p @ post" by blast
    show "(\<exists>post. c # cs = p @ post) \<or> (\<exists>pre post. cs = pre @ p @ post)"
    proof (cases pre)
      case Nil
      with e show ?thesis by auto
    next
      case (Cons x pre')
      with e have "cs = pre' @ p @ post" by simp
      then show ?thesis by blast
    qed
  next
    assume "(\<exists>post. c # cs = p @ post) \<or> (\<exists>pre post. cs = pre @ p @ post)"
    then show "\<exists>pre post. c # cs = pre @ p @ post"
    proof
      assume "\<exists>post. c # cs = p @ post"
      then show ?thesis by (metis append_Nil)
    next
      assume "\<exists>pre post. cs = pre @ p @ post"
      then obtain pre post where "cs = pre @ p @ post" by blast
      then have "c # cs = (c # pre) @ p @ post" by simp
      then show ?thesis by blast
    qed
  qed
  ultimately show ?case using Cons.IH by simp
qed

text \<open>
  C10. The claim: \<^verbatim>\<open>GetUser\<close> returns an error exactly when the command fails or its
  output does not contain the pattern \<^verbatim>\<open>Logged in to github.com account <name>\<close>. The code
  differs on the output below: it contains neither that text nor \<^verbatim>\<open>github.com\<close>, and yet
  \<^verbatim>\<open>GetUser\<close> returns the user name \<^verbatim>\<open>bob\<close> and no error, because the dot of the regular
  expression is not escaped and accepts the letter X.
\<close>

theorem GetUser_unescaped_dot:
  "GetUser (''Logged in to githubXcom account bob'', None) = (''bob'', None) \<and>
   \<not> contains_text ''Logged in to github.com account '' ''Logged in to githubXcom account bob'' \<and>
   \<not> contains_text ''github.com'' ''Logged in to githubXcom account bob''"
  by code_simp

section \<open>Properties of the orchestrator\<close>

lemma sort_Slice_props:
  "sorted (sort_Slice xs) \<and> mset (sort_Slice xs) = mset xs \<and> set (sort_Slice xs) = set xs \<and>
   distinct (sort_Slice xs) = distinct xs"
  by (simp add: sort_Slice_def)

text \<open>
  C6. \<^verbatim>\<open>loadDataCmd\<close> calls GetUser, GetFollowing, GetFollowers in this order. When a read
  fails, no later read is made and the result is the error message that wraps the cause.
  When all three succeed, the result is a DataLoaded message whose two lists are the
  calculator's outputs rearranged in ascending order, without duplicates.
\<close>

theorem loadDataCmd_result:
  "(GetUserFunc c = Inl e \<longrightarrow>
      loadDataCmd ns1 ns2 c =
        (ErrorMsg (Some (ErrWrap ''failed to get user: '' e)), [CallGetUser])) \<and>
   (GetUserFunc c = Inr u \<longrightarrow> GetFollowingFunc c u = Inl e \<longrightarrow>
      loadDataCmd ns1 ns2 c =
        (ErrorMsg (Some (ErrWrap ''failed to get following: '' e)),
         [CallGetUser, CallGetFollowing u])) \<and>
   (GetUserFunc c = Inr u \<longrightarrow> GetFollowingFunc c u = Inr fg \<longrightarrow>
    GetFollowersFunc c u = Inl e \<longrightarrow>
      loadDataCmd ns1 ns2 c =
        (ErrorMsg (Some (ErrWrap ''failed to get followers: '' e)),
         [CallGetUser, CallGetFollowing u, CallGetFollowers u])) \<and>
   (GetUserFunc c = Inr u \<longrightarrow> GetFollowingFunc c u = Inr fg \<longrightarrow>
    GetFollowersFunc c u = Inr fr \<longrightarrow>
      (\<exists>a b. loadDataCmd ns1 ns2 c =
           (DataLoadedMsg u a b None, [CallGetUser, CallGetFollowing u, CallGetFollowers u]) \<and>
         mset a = mset (fst (GetMutualFollowsData ns1 ns2 u fg fr)) \<and>
         mset b = mset (snd (GetMutualFollowsData ns1 ns2 u fg fr)) \<and>
         sorted a \<and> distinct a \<and> set a = set fg - set fr \<and>
         sorted b \<and> distinct b \<and> set b = set fr - set fg))"
proof -
  obtain x y where g: "GetMutualFollowsData ns1 ns2 u fg fr = (x, y)"
    by (cases "GetMutualFollowsData ns1 ns2 u fg fr")
  have x: "distinct x" "set x = set fg - set fr"
    using distinct_GetMutualFollowsData [of ns1 ns2 u fg fr]
      fst_GetMutualFollowsData [of ns1 ns2 u fg fr] g by simp_all
  have y: "distinct y" "set y = set fr - set fg"
    using distinct_GetMutualFollowsData [of ns1 ns2 u fg fr]
      snd_GetMutualFollowsData [of ns1 ns2 u fg fr] g by simp_all
  show ?thesis
    using g x y sort_Slice_props [of x] sort_Slice_props [of y]
    by (simp add: loadDataCmd_def)
qed

theorem loadDataCmd_result_witness:
  "loadDataCmd [] [] (testClient\<lparr>GetUserFunc := Inl (ErrNew ''no auth'')\<rparr>) =
     (ErrorMsg (Some (ErrWrap ''failed to get user: '' (ErrNew ''no auth''))), [CallGetUser]) \<and>
   loadDataCmd [] [] (testClient\<lparr>GetFollowingFunc := (\<lambda>u. Inl (ErrNew ''limit''))\<rparr>) =
     (ErrorMsg (Some (ErrWrap ''failed to get following: '' (ErrNew ''limit''))),
      [CallGetUser, CallGetFollowing ''me'']) \<and>
   loadDataCmd [] [] (testClient\<lparr>GetFollowersFunc := (\<lambda>u. Inl (ErrNew ''limit''))\<rparr>) =
     (ErrorMsg (Some (ErrWrap ''failed to get followers: '' (ErrNew ''limit''))),
      [CallGetUser, CallGetFollowing ''me'', CallGetFollowers ''me'']) \<and>
   (\<exists>a b. loadDataCmd [1] [5] testClient =
        (DataLoadedMsg ''me'' a b None,
         [CallGetUser, CallGetFollowing ''me'', CallGetFollowers ''me'']) \<and>
      sorted a \<and> distinct a \<and>
      set a = set [''dave'', ''bob'', ''alice'', ''bob''] - set [''frank'', ''bob'', ''eve''] \<and>
      sorted b \<and> distinct b \<and>
      set b = set [''frank'', ''bob'', ''eve''] - set [''dave'', ''bob'', ''alice'', ''bob''])"
proof -
  let ?fg = "[''dave'', ''bob'', ''alice'', ''bob'']"
  let ?fr = "[''frank'', ''bob'', ''eve'']"
  let ?c1 = "testClient\<lparr>GetUserFunc := Inl (ErrNew ''no auth'')\<rparr>"
  let ?c2 = "testClient\<lparr>GetFollowingFunc := (\<lambda>u. Inl (ErrNew ''limit''))\<rparr>"
  let ?c3 = "testClient\<lparr>GetFollowersFunc := (\<lambda>u. Inl (ErrNew ''limit''))\<rparr>"
  have u1: "GetUserFunc ?c1 = Inl (ErrNew ''no auth'')" by simp
  have u2: "GetUserFunc ?c2 = Inr ''me''" "GetFollowingFunc ?c2 ''me'' = Inl (ErrNew ''limit'')"
    by (simp_all add: testClient_def)
  have u3: "GetUserFunc ?c3 = Inr ''me''" "GetFollowingFunc ?c3 ''me'' = Inr ?fg"
    "GetFollowersFunc ?c3 ''me'' = Inl (ErrNew ''limit'')"
    by (simp_all add: testClient_def)
  have u4: "GetUserFunc testClient = Inr ''me''" "GetFollowingFunc testClient ''me'' = Inr ?fg"
    "GetFollowersFunc testClient ''me'' = Inr ?fr"
    by (simp_all add: testClient_def)
  note r1 = loadDataCmd_result [of ?c1 "ErrNew ''no auth''" "[]" "[]" "''me''" ?fg ?fr,
      THEN conjunct1, rule_format, OF u1]
  note r2 = loadDataCmd_result [of ?c2 "ErrNew ''limit''" "[]" "[]" "''me''" ?fg ?fr,
      THEN conjunct2, THEN conjunct1, rule_format, OF u2]
  note r3 = loadDataCmd_result [of ?c3 "ErrNew ''limit''" "[]" "[]" "''me''" ?fg ?fr,
      THEN conjunct2, THEN conjunct2, THEN conjunct1, rule_format, OF u3]
  note r4 = loadDataCmd_result [of testClient "ErrNew ''limit''" "[1]" "[5]" "''me''" ?fg ?fr,
      THEN conjunct2, THEN conjunct2, THEN conjunct2, rule_format, OF u4]
  from r4 obtain a b where ab:
    "loadDataCmd [1] [5] testClient =
        (DataLoadedMsg ''me'' a b None,
         [CallGetUser, CallGetFollowing ''me'', CallGetFollowers ''me''])"
    "sorted a" "distinct a" "set a = set ?fg - set ?fr"
    "sorted b" "distinct b" "set b = set ?fr - set ?fg"
    by blast
  from r1 r2 r3 ab show ?thesis by blast
qed

end
